theory Spec2Isabelle
  imports
    Main
    "HOL-Library.Char_ord"
    "HOL-Library.List_Lexorder"
    "HOL-Library.Product_Lexorder"
    "HOL-Library.Multiset"
begin

section \<open>JavaScript strings and arrays\<close>

text \<open>
  Strings are lists of characters. The character type has 256 values, read as the code
  points U+0000 to U+00FF; the source's strings are modelled on that range.
\<close>

abbreviation nl :: string where
  "nl \<equiv> [CHR 0x0A]"

text \<open>The characters matched by the regular expression class \<open>\s\<close>, which are also the
  characters removed by \<open>String.prototype.trim\<close>: tab, line feed, vertical tab, form feed,
  carriage return, space and no-break space.\<close>

definition is_space :: "char \<Rightarrow> bool" where
  "is_space c = (c \<in> set [CHR 0x09, CHR 0x0A, CHR 0x0B, CHR 0x0C, CHR 0x0D, CHR 0x20, CHR 0xA0])"

text \<open>\<open>Array.prototype.join\<close>.\<close>

fun join :: "string \<Rightarrow> string list \<Rightarrow> string" where
  "join sep [] = []"
| "join sep [x] = x"
| "join sep (x # y # ys) = x @ sep @ join sep (y # ys)"

text \<open>\<open>xs.slice(-n)\<close>: the last \<open>n\<close> elements, all of them when there are fewer.\<close>

definition slice_last :: "nat \<Rightarrow> 'a list \<Rightarrow> 'a list" where
  "slice_last n xs = drop (length xs - n) xs"

text \<open>Prepend a character to the first piece of a list of pieces.\<close>

fun cons_first :: "char \<Rightarrow> string list \<Rightarrow> string list" where
  "cons_first c [] = [[c]]"
| "cons_first c (w # ws) = (c # w) # ws"

text \<open>\<open>text.split(/\s+/)\<close>: the pieces between maximal runs of white space. The result
  is never empty; its first and last piece are empty when the text starts or ends with
  white space.\<close>

function split_ws :: "string \<Rightarrow> string list" where
  "split_ws [] = [[]]"
| "split_ws (c # cs) =
     (if is_space c then [] # split_ws (dropWhile is_space cs)
      else cons_first c (split_ws cs))"
  by pat_completeness auto
termination
  by (relation "measure length") (auto simp: length_dropWhile_le less_Suc_eq_le)

text \<open>\<open>s.split(sep)\<close> for a string separator. An empty separator cuts the string into
  its characters (and the empty string into no piece at all); otherwise the string is cut
  at each occurrence of the separator, scanning from the left.\<close>

function split_sep :: "string \<Rightarrow> string \<Rightarrow> string list" where
  "split_sep sep [] = [[]]"
| "split_sep sep (c # cs) =
     (if take (length sep) (c # cs) = sep
      then [] # split_sep sep (drop (length sep - 1) cs)
      else cons_first c (split_sep sep cs))"
  by pat_completeness auto
termination
  by (relation "measure (\<lambda>(sep, s). length s)") auto

definition split_str :: "string \<Rightarrow> string \<Rightarrow> string list" where
  "split_str sep s = (if sep = [] then map (\<lambda>c. [c]) s else split_sep sep s)"

text \<open>\<open>String.prototype.trim\<close>.\<close>

definition trim :: "string \<Rightarrow> string" where
  "trim s = rev (dropWhile is_space (rev (dropWhile is_space s)))"

text \<open>\<open>String.prototype.toLowerCase\<close> on U+0000 to U+00FF: the letters A to Z, and the
  Latin-1 capitals U+00C0 to U+00DE other than the multiplication sign U+00D7, move up by 32.\<close>

definition lower_char :: "char \<Rightarrow> char" where
  "lower_char c =
     (let n = (of_char c :: nat) in
      if (65 \<le> n \<and> n \<le> 90) \<or> (192 \<le> n \<and> n \<le> 222 \<and> n \<noteq> 215)
      then char_of (n + 32) else c)"

definition toLowerCase :: "string \<Rightarrow> string" where
  "toLowerCase s = map lower_char s"

section \<open>The history store: Redis sorted sets\<close>

text \<open>
  \<open>MemoryManager.history\<close> is a Redis client; the three commands the source uses are
  \<open>ZADD\<close>, \<open>ZRANGE ... BYSCORE\<close> and \<open>EXISTS\<close>. A sorted set holds each member once,
  with one score: \<open>ZADD\<close> of a member that is already in the set replaces its score and
  adds nothing. A key exists exactly while its sorted set has a member. Scores are the
  integers the source writes (milliseconds of \<open>Date.now()\<close>, and the seed counter).
  Every command is taken to be answered by the server. A member that is a string is
  sent to the server as it is.
\<close>

type_synonym zset = "(string \<times> int) list"
type_synonym redis = "string \<Rightarrow> zset"

fun zset_add :: "string \<Rightarrow> int \<Rightarrow> zset \<Rightarrow> zset" where
  "zset_add m s [] = [(m, s)]"
| "zset_add m s ((m', s') # zs) =
     (if m' = m then (m, s) # zs else (m', s') # zset_add m s zs)"

text \<open>\<open>ZADD key score member\<close>; the reply is the number of members that were new.\<close>

definition zadd :: "redis \<Rightarrow> string \<Rightarrow> int \<Rightarrow> string \<Rightarrow> redis \<times> nat" where
  "zadd db key score member =
     (db(key := zset_add member score (db key)),
      if member \<in> fst ` set (db key) then 0 else 1)"

text \<open>\<open>ZRANGE key lo hi BYSCORE\<close>: the entries whose score lies in the closed interval,
  by ascending score, entries of equal score by ascending member.\<close>

definition zrange_entries :: "redis \<Rightarrow> string \<Rightarrow> int \<Rightarrow> int \<Rightarrow> zset" where
  "zrange_entries db key lo hi =
     sort_key (\<lambda>(m, s). (s, m)) (filter (\<lambda>(m, s). lo \<le> s \<and> s \<le> hi) (db key))"

definition zrange_byscore :: "redis \<Rightarrow> string \<Rightarrow> int \<Rightarrow> int \<Rightarrow> string list" where
  "zrange_byscore db key lo hi = map fst (zrange_entries db key lo hi)"

definition exists_key :: "redis \<Rightarrow> string \<Rightarrow> bool" where
  "exists_key db key = (db key \<noteq> [])"

subsection \<open>The client's reading of a reply\<close>

text \<open>
  The client is built by \<open>Redis.fromEnv()\<close>, which leaves its automatic
  deserialization on: every member of a \<open>ZRANGE\<close> reply is passed to \<open>JSON.parse\<close>,
  and the parsed value takes the member's place when parsing succeeds; a member that the
  parser refuses stays the text it is. The source uses the reply only through \<open>join\<close>,
  which prints each value. \<open>reply_text\<close> is the text that \<open>join\<close> prints for a member.
  \<^item> A member that cannot begin a JSON value, because it holds nothing but JSON white
    space (space, tab, line feed, carriage return) or because the first character after
    the white space opens no JSON value, is refused by the parser and printed as stored.
  \<^item> A member that is a JSON string literal without escapes, that is a double quote,
    then characters other than the double quote, the backslash and the control
    characters below U+0020, then a double quote, parses to the characters between the
    quotes, and these are printed.
  \<^item> For every other member the printed text depends on the rest of the JSON grammar
    and on how JavaScript prints numbers, objects and arrays; the model does not compute
    it and takes it from the parameter \<open>client\<close>.
\<close>

definition is_json_ws :: "char \<Rightarrow> bool" where
  "is_json_ws c = (c \<in> set [CHR 0x20, CHR 0x09, CHR 0x0A, CHR 0x0D])"

text \<open>The characters a JSON value can begin with: the double quote, the brace, the
  bracket, the minus sign, a digit, and the first letters of \<open>true\<close>, \<open>false\<close> and
  \<open>null\<close>.\<close>

definition json_start :: "char \<Rightarrow> bool" where
  "json_start c = (c \<in> set (CHR 0x22 # ''{[-0123456789tfn''))"

definition cannot_be_json :: "string \<Rightarrow> bool" where
  "cannot_be_json member =
     (case dropWhile is_json_ws member of [] \<Rightarrow> True | c # rest \<Rightarrow> \<not> json_start c)"

definition plain_string_literal :: "string \<Rightarrow> string option" where
  "plain_string_literal member =
     (case member of
        [] \<Rightarrow> None
      | q # rest \<Rightarrow>
          if q = CHR 0x22 \<and> rest \<noteq> [] \<and> last rest = CHR 0x22
             \<and> list_all (\<lambda>c. c \<noteq> CHR 0x22 \<and> c \<noteq> CHR 0x5C \<and> (32::nat) \<le> of_char c)
                   (butlast rest)
          then Some (butlast rest)
          else None)"

definition reply_text :: "(string \<Rightarrow> string) \<Rightarrow> string \<Rightarrow> string" where
  "reply_text client member =
     (if cannot_be_json member then member
      else (case plain_string_literal member of
              Some body \<Rightarrow> body
            | None \<Rightarrow> client member))"

text \<open>\<open>this.history.zrange(key, lo, hi, { byScore: true })\<close>, each member as \<open>join\<close>
  will print it.\<close>

definition zrange :: "(string \<Rightarrow> string) \<Rightarrow> redis \<Rightarrow> string \<Rightarrow> int \<Rightarrow> int \<Rightarrow> string list" where
  "zrange client db key lo hi = map (reply_text client) (zrange_byscore db key lo hi)"

section \<open>memory.ts: MemoryManager\<close>

text \<open>A companion key as the guards of the source see it at run time: the object may
  be absent, and so may its \<open>userId\<close>.\<close>

record CompanionKey =
  companionName :: string
  modelName :: string
  userId :: "string option"

datatype error = TypeError | ServiceError

text \<open>What a method hands back to its caller.\<close>

datatype js_value = Undefined | Bool bool | Str string | Num nat

text \<open>The template literal prints an absent \<open>userId\<close> as \<open>undefined\<close>.\<close>

definition generateRedisCompanionKey :: "CompanionKey \<Rightarrow> string" where
  "generateRedisCompanionKey ck =
     companionName ck @ ''-'' @ modelName ck @ ''-'' @
     (case userId ck of None \<Rightarrow> ''undefined'' | Some u \<Rightarrow> u)"

definition writeToHistory ::
  "redis \<Rightarrow> int \<Rightarrow> string \<Rightarrow> CompanionKey option \<Rightarrow> redis \<times> js_value" where
  "writeToHistory db now text cko =
     (case cko of
        None \<Rightarrow> (db, Str [])
      | Some ck \<Rightarrow>
          if userId ck = None then (db, Str [])
          else (let key = generateRedisCompanionKey ck;
                    (db', result) = zadd db key now text
                in (db', Num result)))"

definition readLatestHistory ::
  "(string \<Rightarrow> string) \<Rightarrow> redis \<Rightarrow> int \<Rightarrow> CompanionKey option \<Rightarrow> string" where
  "readLatestHistory client db now cko =
     (case cko of
        None \<Rightarrow> []
      | Some ck \<Rightarrow>
          if userId ck = None then []
          else (let key = generateRedisCompanionKey ck;
                    result = zrange client db key 0 now;
                    result = rev (slice_last 100 result)
                in join nl (rev result)))"

text \<open>The loop of \<open>seedChatHistory\<close>: one \<open>ZADD\<close> per line, the counter as score.\<close>

fun seed_loop :: "redis \<Rightarrow> string \<Rightarrow> string list \<Rightarrow> int \<Rightarrow> redis" where
  "seed_loop db key [] counter = db"
| "seed_loop db key (line # content) counter =
     seed_loop (fst (zadd db key counter line)) key content (counter + 1)"

text \<open>\<open>seedChatHistory\<close> has no guard on its key: an absent key object makes the property
  read in \<open>generateRedisCompanionKey\<close> throw. It has no return statement with a value.\<close>

definition seedChatHistory ::
  "redis \<Rightarrow> string \<Rightarrow> string \<Rightarrow> CompanionKey option \<Rightarrow> error + redis \<times> js_value" where
  "seedChatHistory db seedContent delimiter cko =
     (case cko of
        None \<Rightarrow> Inl TypeError
      | Some ck \<Rightarrow>
          (let key = generateRedisCompanionKey ck in
           if exists_key db key then Inr (db, Undefined)
           else Inr (seed_loop db key (split_str delimiter seedContent) 0, Undefined)))"

text \<open>The sorted set that the loop of \<open>seedChatHistory\<close> leaves under its key, and the
  lines of a seed numbered from a counter.\<close>

fun seed_entries :: "zset \<Rightarrow> string list \<Rightarrow> int \<Rightarrow> zset" where
  "seed_entries zs [] counter = zs"
| "seed_entries zs (line # content) counter =
     seed_entries (zset_add line counter zs) content (counter + 1)"

fun number_from :: "int \<Rightarrow> string list \<Rightarrow> zset" where
  "number_from c [] = []"
| "number_from c (l # ls) = (l, c) # number_from (c + 1) ls"

subsection \<open>Example data\<close>

definition empty_redis :: redis where
  "empty_redis = (\<lambda>key. [])"

definition ex_key :: CompanionKey where
  "ex_key = \<lparr>companionName = ''c1'', modelName = ''gpt-4'', userId = Some ''u1''\<rparr>"

definition ex_key_no_user :: CompanionKey where
  "ex_key_no_user = \<lparr>companionName = ''c1'', modelName = ''gpt-4'', userId = None\<rparr>"

definition ex_db :: redis where
  "ex_db = empty_redis(''c1-gpt-4-u1'' := [(''User: hi'', 7), (''Hello!'', 3)])"

text \<open>A history whose one entry is an assistant reply that is a quoted sentence, the
  double quotes included, and a stand-in for the client on the members whose printed text
  the model does not compute; no member of the examples reaches it.\<close>

definition quoted_reply :: string where
  "quoted_reply = CHR 0x22 # ''Hello there'' @ [CHR 0x22]"

definition ex_quoted_db :: redis where
  "ex_quoted_db = empty_redis(''c1-gpt-4-u1'' := [(quoted_reply, 3)])"

definition ex_client :: "string \<Rightarrow> string" where
  "ex_client member = member"

definition ex_seed :: string where
  "ex_seed = ''Human: Hi|Bot: Hello''"

subsection \<open>vectorSearch\<close>

text \<open>
  \<open>truncateText\<close> is only called with its default budget of 8000 tokens. The test
  \<open>words.length * 1.3 <= 8000\<close> is written in tenths, \<open>13 * words.length \<le> 80000\<close>,
  and \<open>Math.floor(8000 / 1.3)\<close> is \<open>80000 div 13\<close>; no product of a word count and 1.3
  comes close enough to 8000 for the rounding of the floating-point product to matter
  (6153 words give 7998.9, 6154 words give 8000.2).
\<close>

definition targetWords :: nat where
  "targetWords = 80000 div 13"

definition truncateText :: "string \<Rightarrow> string" where
  "truncateText text =
     (let words = split_ws text in
      if 13 * length words \<le> 80000 then text
      else join '' '' (take targetWords words))"

text \<open>
  The services \<open>vectorSearch\<close> calls: the handle of the Pinecone index, the vector store
  built on it for a namespace, and the store's similarity search, which embeds the query
  text and queries the index. Each call either fails or answers. A document is its
  \<open>pageContent\<close>.
\<close>

type_synonym document = string

record ('i, 'v) vector_services =
  Index :: "error + 'i"
  fromExistingIndex :: "'i \<Rightarrow> string \<Rightarrow> error + 'v"
  similaritySearch :: "'v \<Rightarrow> string \<Rightarrow> nat \<Rightarrow> error + document list"

text \<open>Only the similarity search is inside the \<open>try\<close> block.\<close>

definition vectorSearch ::
  "('i, 'v) vector_services \<Rightarrow> string \<Rightarrow> string \<Rightarrow> error + document list" where
  "vectorSearch svc recentChatHistory companionFileName =
     (case Index svc of
        Inl e \<Rightarrow> Inl e
      | Inr pineconeIndex \<Rightarrow>
          (case fromExistingIndex svc pineconeIndex companionFileName of
             Inl e \<Rightarrow> Inl e
           | Inr vectorStore \<Rightarrow>
               (let truncatedHistory = truncateText recentChatHistory in
                case similaritySearch svc vectorStore truncatedHistory 5 of
                  Inr similarDocs \<Rightarrow> Inr similarDocs
                | Inl err \<Rightarrow> Inr [])))"

definition no_space :: "string \<Rightarrow> bool" where
  "no_space w = (\<forall>c \<in> set w. \<not> is_space c)"

text \<open>A text of \<open>n\<close> one-letter words, each followed by a space.\<close>

definition many_words :: "nat \<Rightarrow> string" where
  "many_words n = concat (replicate n ''a '')"

definition ex_services :: "(unit, unit) vector_services" where
  "ex_services =
     \<lparr>Index = Inr (),
      fromExistingIndex = (\<lambda>i ns. Inr ()),
      similaritySearch = (\<lambda>v q k. if q = ''fail'' then Inl ServiceError else Inr [''doc''])\<rparr>"

section \<open>route.ts: the repetition check\<close>

text \<open>A row of the relational message table, and a companion with the messages loaded
  for the user.\<close>

record message =
  content :: string
  role :: string
  msg_userId :: string
  companionId :: string

record companion =
  companion_id :: string
  companion_name :: string
  companion_instructions :: string
  companion_seed :: string
  companion_messages :: "message list"

text \<open>\<open>s.toLowerCase().split(" ").filter(word => word.length > 0)\<close>: the separator is
  the single space character.\<close>

definition words_of :: "string \<Rightarrow> string list" where
  "words_of s = filter (\<lambda>word. length word > 0) (split_str '' '' (toLowerCase s))"

text \<open>A \<open>Map<string, number>\<close>, its keys in insertion order.\<close>

type_synonym word_map = "(string \<times> nat) list"

fun map_set :: "word_map \<Rightarrow> string \<Rightarrow> nat \<Rightarrow> word_map" where
  "map_set [] word n = [(word, n)]"
| "map_set ((w, c) # m) word n =
     (if w = word then (word, n) # m else (w, c) # map_set m word n)"

text \<open>\<open>map.set(word, (map.get(word) || 0) + 1)\<close>.\<close>

definition count_word :: "string \<Rightarrow> word_map \<Rightarrow> word_map" where
  "count_word word m =
     map_set m word ((case map_of m word of None \<Rightarrow> 0 | Some c \<Rightarrow> c) + 1)"

definition word_count_map :: "string list \<Rightarrow> word_map" where
  "word_count_map ws = fold count_word ws []"

definition commonWords :: "word_map \<Rightarrow> word_map \<Rightarrow> nat" where
  "commonWords msgWordMap promptWordMap =
     fold (\<lambda>(word, count) common.
             case map_of promptWordMap word of
               Some promptCount \<Rightarrow> common + min count promptCount
             | None \<Rightarrow> common)
          msgWordMap 0"

text \<open>
  The callback of the filter. \<open>similarity > 0.6\<close> for the quotient of two word counts is
  \<open>5 * commonWords > 3 * max ...\<close>: a quotient of naturals that is not exactly 3/5
  differs from it by at least one part in five times the divisor, far more than the
  rounding of the division and of the constant for any word count a string can have.
  With both word lists empty the quotient is \<open>NaN\<close> and the comparison is false, as
  \<open>0 > 0\<close> is.
\<close>

definition is_similar :: "string \<Rightarrow> string \<Rightarrow> bool" where
  "is_similar prompt msg_content =
     (if msg_content = [] then False
      else
        (let msgWords = words_of msg_content;
             promptWords = words_of prompt;
             msgWordMap = word_count_map msgWords;
             promptWordMap = word_count_map promptWords;
             common = commonWords msgWordMap promptWordMap
         in 3 * max (length msgWords) (length promptWords) < 5 * common))"

definition similarMessages :: "string \<Rightarrow> message list \<Rightarrow> message list" where
  "similarMessages prompt recentMessages =
     filter (\<lambda>msg. is_similar prompt (content msg)) recentMessages"

text \<open>The constants \<open>isRepetitive\<close> and \<open>lastResponse\<close> of the handler.\<close>

definition detect_isRepetitive :: "string \<Rightarrow> message list \<Rightarrow> bool" where
  "detect_isRepetitive prompt recentMessages = (length (similarMessages prompt recentMessages) > 0)"

text \<open>\<open>similarMessages[0]?.content || ""\<close>.\<close>

definition detect_lastResponse :: "string \<Rightarrow> message list \<Rightarrow> string" where
  "detect_lastResponse prompt recentMessages =
     (case similarMessages prompt recentMessages of [] \<Rightarrow> [] | msg # _ \<Rightarrow> content msg)"

subsection \<open>The repetition check in the words of the specification\<close>

text \<open>Lower-case, split on white space, and take the multiset overlap of the words
  over the larger word count; flagged when the ratio exceeds 0.6.\<close>

definition spec_words :: "string \<Rightarrow> string list" where
  "spec_words s = filter (\<lambda>word. word \<noteq> []) (split_ws (toLowerCase s))"

definition spec_ratio_exceeds :: "string \<Rightarrow> string \<Rightarrow> bool" where
  "spec_ratio_exceeds a b =
     (3 * max (length (spec_words a)) (length (spec_words b))
        < 5 * size (mset (spec_words a) \<inter># mset (spec_words b)))"

definition spec_isRepetitive :: "string \<Rightarrow> string list \<Rightarrow> bool" where
  "spec_isRepetitive candidate recentTexts = list_ex (spec_ratio_exceeds candidate) recentTexts"

section \<open>route.ts: the prompt template\<close>

definition createPromptTemplate ::
  "string \<Rightarrow> string \<Rightarrow> string \<Rightarrow> bool \<Rightarrow> string \<Rightarrow> string \<Rightarrow> string" where
  "createPromptTemplate name instructions messageHistory isRepetitive lastResponse prompt =
     (let recentMessages =
            slice_last 6
              (filter (\<lambda>line. length (trim line) > 0)
                 (slice_last 12 (split_str nl messageHistory)))
      in join nl
           [''<|system|>'',
            ''You are '' @ name @ ''. Stay focused on the current topic of discussion.'',
            '''',
            ''Core Identity:'',
            instructions,
            '''',
            ''CONVERSATION HISTORY (Last 3 exchanges):'',
            join nl recentMessages,
            '''',
            ''CURRENT TOPIC: '' @ prompt,
            '''',
            ''RULES:'',
            ''1. STAY ON TOPIC: The user is asking about '' @ prompt @
              ''. Do NOT talk about yourself unless specifically asked'',
            ''2. NO REPETITION: Don't repeat phrases from your recent messages shown above'',
            ''3. MEMORY ACTIVE: Reference the conversation history to maintain context'',
            ''4. FOCUSED RESPONSE: Address the current question directly'',
            '''',
            ''Current question: '' @ prompt,
            ''Response as '' @ name @ '', focusing ONLY on the asked topic:'',
            ''<|assistant|>''])"

definition no_repetition_rule :: string where
  "no_repetition_rule =
     ''2. NO REPETITION: Don't repeat phrases from your recent messages shown above''"

text \<open>The count a word map holds for a word, 0 when the word is not a key.\<close>

definition stored :: "word_map \<Rightarrow> string \<Rightarrow> nat" where
  "stored m w = (case map_of m w of None \<Rightarrow> 0 | Some c \<Rightarrow> c)"

subsection \<open>Example messages\<close>

definition ex_msg :: "string \<Rightarrow> message" where
  "ex_msg c = \<lparr>content = c, role = ''system'', msg_userId = ''u1'', companionId = ''c1''\<rparr>"

definition ex_recent :: "message list" where
  "ex_recent =
     [ex_msg ''What is the weather'', ex_msg ''tell me a JOKE please'', ex_msg ''Tell me a joke'']"

text \<open>A prompt of two lines: \<open>hello\<close>, a line feed, \<open>world\<close>.\<close>

definition ex_two_lines :: string where
  "ex_two_lines = ''hello'' @ nl @ ''world''"

section \<open>route.ts: the POST handler\<close>

datatype response = NextResponse string nat | StreamingTextResponse

text \<open>The stores the handler writes: the relational message table and the Redis
  history.\<close>

record world =
  message_table :: "message list"
  history :: redis




text \<open>
  What happens while the response stream is read: the model's stream yields a part
  whose delta has the given text (empty when it has none), the timer set at the head of
  the handler fires, or the iteration throws. The timer's callback calls \<open>abort()\<close> on
  the handler's \<open>AbortController\<close>; the controller's signal is passed to no call, so all
  that changes is the flag of that signal.
\<close>

datatype stream_event = Part string | TimerFires | IteratorThrows

record stream_state =
  aborted :: bool
  enqueued :: "string list"
  fullResponse :: string
  errored :: bool

fun for_await :: "stream_state \<Rightarrow> stream_event list \<Rightarrow> stream_state" where
  "for_await s [] = s"
| "for_await s (Part text # evs) =
     for_await
       (if text \<noteq> []
        then s\<lparr>fullResponse := fullResponse s @ text, enqueued := enqueued s @ [text]\<rparr>
        else s)
       evs"
| "for_await s (TimerFires # evs) = for_await (s\<lparr>aborted := True\<rparr>) evs"
| "for_await s (IteratorThrows # evs) = s\<lparr>errored := True\<rparr>"

text \<open>The \<open>start\<close> function of the response stream: the loop, then the two
  persistence writes when more than one character has accumulated.\<close>

definition stream_start ::
  "world \<Rightarrow> int \<Rightarrow> string \<Rightarrow> string \<Rightarrow> CompanionKey \<Rightarrow> stream_event list
     \<Rightarrow> world \<times> stream_state" where
  "stream_start w now chatId uid companionKey evs =
     (let s = for_await
                \<lparr>aborted = False, enqueued = [], fullResponse = [], errored = False\<rparr> evs
      in if \<not> errored s \<and> length (fullResponse s) > 1
         then (w\<lparr>history :=
                    fst (writeToHistory (history w) now (trim (fullResponse s))
                           (Some companionKey)),
                  message_table := message_table w @
                    [\<lparr>content = trim (fullResponse s), role = ''system'',
                      msg_userId = uid, companionId = chatId\<rparr>]\<rparr>,
               s)
         else (w, s))"

subsection \<open>Example requests\<close>

definition ex_world :: world where
  "ex_world = \<lparr>message_table = [], history = empty_redis\<rparr>"


section \<open>Properties of the history store\<close>


lemma zset_add_fst: "fst ` set (zset_add m s zs) = insert m (fst ` set zs)"
  by (induction m s zs rule: zset_add.induct) (simp_all add: insert_commute)

lemma zset_add_map_of: "map_of (zset_add m s zs) = (map_of zs)(m \<mapsto> s)"
  by (induction zs) auto

lemma zset_add_others:
  "filter (\<lambda>e. fst e \<noteq> m) (zset_add m s zs) = filter (\<lambda>e. fst e \<noteq> m) zs"
  by (induction zs) auto

lemma zset_add_length:
  "length (zset_add m s zs) = (if m \<in> fst ` set zs then length zs else Suc (length zs))"
  by (induction zs) (simp_all, force+)

lemma zset_add_distinct:
  "distinct (map fst zs) \<Longrightarrow> distinct (map fst (zset_add m s zs))"
  by (induction zs) (auto simp: zset_add_fst)

lemma zset_add_new: "m \<notin> fst ` set zs \<Longrightarrow> zset_add m s zs = zs @ [(m, s)]"
  by (induction zs) auto

lemma seed_loop_eq: "seed_loop db key ls c = db(key := seed_entries (db key) ls c)"
  by (induction ls arbitrary: db c) (auto simp: zadd_def)

lemma seed_entries_fst: "fst ` set (seed_entries zs ls c) = fst ` set zs \<union> set ls"
  by (induction ls arbitrary: zs c) (auto simp: zset_add_fst)

lemma seed_entries_distinct:
  "distinct (map fst zs) \<Longrightarrow> distinct (map fst (seed_entries zs ls c))"
  by (induction ls arbitrary: zs c) (auto simp: zset_add_distinct)

lemma seed_entries_fresh:
  "distinct ls \<Longrightarrow> set ls \<inter> fst ` set zs = {} \<Longrightarrow>
   seed_entries zs ls c = zs @ number_from c ls"
proof (induction ls arbitrary: zs c)
  case Nil
  then show ?case by simp
next
  case (Cons l ls)
  have new: "l \<notin> fst ` set zs" using Cons.prems by auto
  have "set ls \<inter> fst ` set (zs @ [(l, c)]) = {}" using Cons.prems by auto
  with Cons.IH [of "zs @ [(l, c)]" "c + 1"] Cons.prems new show ?case
    by (simp add: zset_add_new)
qed

lemma seed_entries_last:
  "l \<notin> set ls \<Longrightarrow> map_of (seed_entries zs ls c) l = map_of zs l"
  by (induction ls arbitrary: zs c) (auto simp: zset_add_map_of)

lemma seed_entries_score:
  "i < length ls \<Longrightarrow> ls ! i \<notin> set (drop (Suc i) ls) \<Longrightarrow>
   map_of (seed_entries zs ls c) (ls ! i) = Some (c + int i)"
proof (induction ls arbitrary: zs c i)
  case Nil
  then show ?case by simp
next
  case (Cons l ls)
  show ?case
  proof (cases i)
    case 0
    with Cons.prems show ?thesis by (simp add: seed_entries_last zset_add_map_of)
  next
    case (Suc j)
    with Cons.prems Cons.IH [of j "zset_add l c zs" "c + 1"] show ?thesis by simp
  qed
qed

lemma number_from_fst: "map fst (number_from c ls) = ls"
  by (induction ls arbitrary: c) auto

lemma number_from_snd: "map snd (number_from c ls) = map (\<lambda>i. c + int i) [0..<length ls]"
proof (induction ls arbitrary: c)
  case Nil
  then show ?case by simp
next
  case (Cons l ls)
  have "[0..<Suc (length ls)] = 0 # map Suc [0..<length ls]"
    by (simp add: upt_conv_Cons map_Suc_upt del: upt_Suc)
  then show ?case using Cons.IH [of "c + 1"] by (simp add: o_def add.assoc del: upt_Suc)
qed

lemma number_from_bounds:
  "e \<in> set (number_from c ls) \<Longrightarrow> c \<le> snd e \<and> snd e < c + int (length ls)"
  by (induction ls arbitrary: c) fastforce+

lemma number_from_sorted: "sorted (map (\<lambda>(m, s). (s, m)) (number_from c ls))"
proof (induction ls arbitrary: c)
  case Nil
  then show ?case by simp
next
  case (Cons l ls)
  have "\<forall>e \<in> set (number_from (c + 1) ls). (c, l) \<le> (snd e, fst e)"
    using number_from_bounds [of _ "c + 1" ls] by (fastforce simp: less_eq_prod_def)
  then show ?case using Cons.IH [of "c + 1"] by (auto simp: case_prod_beta)
qed








lemma split_sep_not_Nil: "split_sep sep s \<noteq> []"
  by (induction sep s rule: split_sep.induct) (auto split: list.splits elim: cons_first.elims)

lemma split_ws_not_Nil: "split_ws s \<noteq> []"
  by (induction s rule: split_ws.induct) (auto split: list.splits elim: cons_first.elims)

lemma zrange_number_from:
  assumes "db key = number_from 0 ls"
  shows "zrange_byscore db key 0 (int (length ls)) = ls"
proof -
  have "filter (\<lambda>(m, s). 0 \<le> s \<and> s \<le> int (length ls)) (number_from 0 ls) = number_from 0 ls"
    using number_from_bounds [of _ 0 ls] by (fastforce simp: filter_id_conv)
  then show ?thesis
    by (simp add: zrange_byscore_def zrange_entries_def assms
        sort_key_id_if_sorted number_from_sorted number_from_fst)
qed

text \<open>Whatever the client does on the members the model leaves open, the quoted reply
  is read back without its quotes.\<close>

lemma quoted_reply_any_client:
  "readLatestHistory client ex_quoted_db 10 (Some ex_key) = ''Hello there''"
  by (simp add: readLatestHistory_def zrange_def zrange_byscore_def zrange_entries_def
      slice_last_def ex_quoted_db_def empty_redis_def generateRedisCompanionKey_def ex_key_def
      reply_text_def cannot_be_json_def is_json_ws_def json_start_def plain_string_literal_def
      quoted_reply_def)

section \<open>Splitting on white space and joining with spaces\<close>

lemma join_Cons: "join sep (v # vs) = v @ (if vs = [] then [] else sep @ join sep vs)"
  by (cases vs) simp_all

lemma split_ws_no_space: "no_space w \<Longrightarrow> split_ws w = [w]"
  by (induction w) (simp_all add: no_space_def)

lemma split_ws_append_space:
  "no_space w \<Longrightarrow> is_space c \<Longrightarrow>
   split_ws (w @ c # rest) = w # split_ws (dropWhile is_space rest)"
  by (induction w) (simp_all add: no_space_def)

lemma dropWhile_join:
  "v \<noteq> [] \<Longrightarrow> no_space v \<Longrightarrow> dropWhile is_space (join sep (v # vs)) = join sep (v # vs)"
  by (cases v) (simp_all add: join_Cons no_space_def)

lemma split_ws_join:
  "no_space w \<Longrightarrow> \<forall>v \<in> set vs. v \<noteq> [] \<and> no_space v \<Longrightarrow>
   split_ws (join '' '' (w # vs)) = w # vs"
proof (induction vs arbitrary: w)
  case Nil
  then show ?case by (simp add: split_ws_no_space)
next
  case (Cons v vs)
  have sp: "is_space CHR '' ''" by (simp add: is_space_def)
  have "split_ws (join '' '' (w # v # vs)) = w # split_ws (dropWhile is_space (join '' '' (v # vs)))"
    using split_ws_append_space [OF Cons.prems(1) sp, of "join '' '' (v # vs)"] by simp
  also have "dropWhile is_space (join '' '' (v # vs)) = join '' '' (v # vs)"
    using Cons.prems(2) by (simp add: dropWhile_join)
  also have "split_ws (join '' '' (v # vs)) = v # vs"
    using Cons.prems(2) by (intro Cons.IH) simp_all
  finally show ?case .
qed

lemma cons_first_hd: "hd (cons_first c ws) \<noteq> []"
  by (cases ws) simp_all

lemma split_ws_hd:
  "s \<noteq> [] \<Longrightarrow> \<not> is_space (hd s) \<Longrightarrow> hd (split_ws s) \<noteq> []"
  by (cases s) (simp_all add: cons_first_hd)

lemma split_ws_pieces:
  "split_ws s = w # vs \<Longrightarrow>
   no_space w \<and> (\<forall>v \<in> set vs. no_space v) \<and> (\<forall>v \<in> set (butlast vs). v \<noteq> [])"
proof (induction s arbitrary: w vs rule: split_ws.induct)
  case 1
  then show ?case by (simp add: no_space_def)
next
  case (2 c cs)
  show ?case
  proof (cases "is_space c")
    case True
    let ?d = "dropWhile is_space cs"
    from True "2.prems" have w: "w = []" and vs: "vs = split_ws ?d" by simp_all
    obtain r rs where r: "split_ws ?d = r # rs"
      using split_ws_not_Nil [of ?d] by (cases "split_ws ?d") auto
    note ih = "2.IH"(1) [OF True r]
    have "r \<noteq> []" if "rs \<noteq> []"
    proof (cases ?d)
      case Nil
      with r that show ?thesis by simp
    next
      case (Cons d ds)
      then have "\<not> is_space (hd ?d)" using hd_dropWhile [of is_space cs] by simp
      with Cons r split_ws_hd [of ?d] show ?thesis by simp
    qed
    with ih show ?thesis by (auto simp: w vs r no_space_def)
  next
    case False
    obtain r rs where r: "split_ws cs = r # rs"
      using split_ws_not_Nil [of cs] by (cases "split_ws cs") auto
    with False "2.prems" have w: "w = c # r" and vs: "vs = rs" by simp_all
    from "2.IH"(2) [OF False r] False show ?thesis by (auto simp: w vs no_space_def)
  qed
qed

lemma split_ws_take_join:
  assumes "0 < n" and "n < length (split_ws s)"
  shows "split_ws (join '' '' (take n (split_ws s))) = take n (split_ws s)"
proof -
  obtain w vs where s: "split_ws s = w # vs"
    using split_ws_not_Nil [of s] by (cases "split_ws s") auto
  obtain m where n: "n = Suc m" using assms(1) by (cases n) auto
  have m: "m < length vs" using assms(2) by (simp add: s n)
  have "m \<le> length vs - 1" using m by simp
  then have "set (take m vs) \<subseteq> set (butlast vs)"
    by (simp add: butlast_conv_take set_take_subset_set_take)
  with split_ws_pieces [OF s] set_take_subset [of m vs]
  have "no_space w" "\<forall>v \<in> set (take m vs). v \<noteq> [] \<and> no_space v" by auto
  then show ?thesis by (simp add: s n split_ws_join)
qed


lemma split_ws_many_words: "split_ws (many_words n) = replicate n ''a'' @ [[]]"
proof (induction n)
  case 0
  then show ?case by (simp add: many_words_def)
next
  case (Suc n)
  have step: "many_words (Suc n) = ''a'' @ CHR '' '' # many_words n"
    by (simp add: many_words_def)
  have "dropWhile is_space (many_words n) = many_words n"
    by (cases n) (simp_all add: many_words_def is_space_def)
  then have "split_ws (many_words (Suc n)) = ''a'' # split_ws (many_words n)"
    unfolding step by (subst split_ws_append_space) (simp_all add: no_space_def is_space_def)
  with Suc show ?case by simp
qed

section \<open>Word maps and the multiset overlap\<close>

lemma map_set_map_of: "map_of (map_set m word n) = (map_of m)(word \<mapsto> n)"
  by (induction m word n rule: map_set.induct) auto

lemma map_set_keys: "fst ` set (map_set m word n) = insert word (fst ` set m)"
  by (induction m word n rule: map_set.induct) (simp_all add: insert_commute)

lemma map_set_distinct: "distinct (map fst m) \<Longrightarrow> distinct (map fst (map_set m word n))"
  by (induction m word n rule: map_set.induct) (auto simp: map_set_keys)

lemma fold_count_word_stored:
  "stored (fold count_word ws m) w = stored m w + count (mset ws) w"
  by (induction ws arbitrary: m) (auto simp: stored_def count_word_def map_set_map_of)

lemma fold_count_word_keys: "fst ` set (fold count_word ws m) = fst ` set m \<union> set ws"
  by (induction ws arbitrary: m) (auto simp: count_word_def map_set_keys)

lemma fold_count_word_distinct:
  "distinct (map fst m) \<Longrightarrow> distinct (map fst (fold count_word ws m))"
  by (induction ws arbitrary: m) (auto simp: count_word_def map_set_distinct)

lemma word_count_map_stored: "stored (word_count_map ws) w = count (mset ws) w"
  using fold_count_word_stored [of ws "[]" w] by (simp add: word_count_map_def stored_def)

lemma word_count_map_keys: "set (map fst (word_count_map ws)) = set ws"
  by (simp add: word_count_map_def fold_count_word_keys)

lemma word_count_map_distinct: "distinct (map fst (word_count_map ws))"
  by (simp add: word_count_map_def fold_count_word_distinct)

lemma word_count_map_entry:
  assumes "(w, c) \<in> set (word_count_map ws)"
  shows "c = count (mset ws) w"
proof -
  have "map_of (word_count_map ws) w = Some c"
    using assms word_count_map_distinct by (simp add: map_of_eq_Some_iff)
  then have "stored (word_count_map ws) w = c" by (simp add: stored_def)
  then show ?thesis by (simp add: word_count_map_stored)
qed

lemma word_count_map_lookup:
  "(case map_of (word_count_map ws) w of Some c \<Rightarrow> min n c | None \<Rightarrow> 0)
     = min n (count (mset ws) w)"
  unfolding word_count_map_stored [of ws w, symmetric] stored_def
  by (simp split: option.splits)

lemma commonWords_sum:
  "fold (\<lambda>(word, count) common.
           case map_of pm word of Some promptCount \<Rightarrow> common + min count promptCount
           | None \<Rightarrow> common) mm acc
   = acc + sum_list (map (\<lambda>(word, count).
           case map_of pm word of Some promptCount \<Rightarrow> min count promptCount | None \<Rightarrow> 0) mm)"
  by (induction mm arbitrary: acc) (auto simp: ac_simps split: option.splits)

lemma commonWords_multiset:
  "commonWords (word_count_map a) (word_count_map b) = size (mset a \<inter># mset b)"
proof -
  let ?h = "\<lambda>w. min (count (mset a) w) (count (mset b) w)"
  let ?A = "word_count_map a"
  have "commonWords ?A (word_count_map b)
      = sum_list (map (\<lambda>(word, count).
          case map_of (word_count_map b) word of Some promptCount \<Rightarrow> min count promptCount
          | None \<Rightarrow> 0) ?A)"
    by (simp add: commonWords_def commonWords_sum)
  also have "\<dots> = sum_list (map (?h \<circ> fst) ?A)"
    by (rule arg_cong [where f = sum_list], rule map_cong)
       (auto simp: word_count_map_lookup dest: word_count_map_entry)
  also have "\<dots> = sum_list (map ?h (map fst ?A))" by simp
  also have "\<dots> = sum ?h (set (map fst ?A))"
    using word_count_map_distinct [of a] by (rule sum_list_distinct_conv_sum_set)
  also have "\<dots> = sum ?h (set a)" by (simp only: word_count_map_keys)
  also have "\<dots> = sum ?h (set a \<inter> set b)"
    by (rule sum.mono_neutral_right) (auto simp: count_eq_zero_iff)
  also have "\<dots> = size (mset a \<inter># mset b)"
    by (simp add: size_multiset_overloaded_eq)
  finally show ?thesis .
qed

lemma words_of_empty: "words_of [] = []"
  by (simp add: words_of_def split_str_def toLowerCase_def)

lemma is_similar_overlap:
  "is_similar prompt msg_content \<longleftrightarrow>
     3 * max (length (words_of msg_content)) (length (words_of prompt))
       < 5 * size (mset (words_of msg_content) \<inter># mset (words_of prompt))"
  by (cases "msg_content = []")
     (simp_all add: is_similar_def Let_def commonWords_multiset words_of_empty)

lemma join_member: "x \<in> set xs \<Longrightarrow> \<exists>pre post. join sep xs = pre @ x @ post"
proof (induction xs)
  case Nil
  then show ?case by simp
next
  case (Cons y ys)
  show ?case
  proof (cases "x = y")
    case True
    have "join sep (y # ys) = [] @ x @ (if ys = [] then [] else sep @ join sep ys)"
      by (simp add: join_Cons True)
    then show ?thesis by blast
  next
    case False
    with Cons.prems have "x \<in> set ys" by simp
    from Cons.IH [OF this] obtain pre post where "join sep ys = pre @ x @ post" by blast
    moreover have "ys \<noteq> []" using \<open>x \<in> set ys\<close> by auto
    ultimately have "join sep (y # ys) = (y @ sep @ pre) @ x @ post"
      by (simp add: join_Cons)
    then show ?thesis by blast
  qed
qed

section \<open>The timer and the response stream\<close>

text \<open>Taking the firing of the timer out of a run of the stream changes neither what is
  handed to the caller nor what is written to the stores.\<close>

lemma for_await_timer_ignored:
  assumes "enqueued s' = enqueued s" "fullResponse s' = fullResponse s" "errored s' = errored s"
  shows "enqueued (for_await s' (removeAll TimerFires evs)) = enqueued (for_await s evs)
       \<and> fullResponse (for_await s' (removeAll TimerFires evs)) = fullResponse (for_await s evs)
       \<and> errored (for_await s' (removeAll TimerFires evs)) = errored (for_await s evs)"
  using assms
proof (induction evs arbitrary: s s')
  case Nil
  then show ?case by simp
next
  case (Cons ev evs)
  show ?case
  proof (cases ev)
    case (Part part)
    show ?thesis
    proof (cases "part = []")
      case True
      with Part Cons.IH [OF Cons.prems] show ?thesis by simp
    next
      case False
      with Part Cons.prems
        Cons.IH [of "s'\<lparr>fullResponse := fullResponse s' @ part, enqueued := enqueued s' @ [part]\<rparr>"
          "s\<lparr>fullResponse := fullResponse s @ part, enqueued := enqueued s @ [part]\<rparr>"]
      show ?thesis by simp
    qed
  next
    case TimerFires
    with Cons.prems Cons.IH [of s' "s\<lparr>aborted := True\<rparr>"] show ?thesis by simp
  next
    case IteratorThrows
    with Cons.prems show ?thesis by simp
  qed
qed

lemma stream_start_timer_ignored:
  "fst (stream_start w now chatId uid ck (removeAll TimerFires evs))
     = fst (stream_start w now chatId uid ck evs)
   \<and> enqueued (snd (stream_start w now chatId uid ck (removeAll TimerFires evs)))
     = enqueued (snd (stream_start w now chatId uid ck evs))"
  using for_await_timer_ignored
    [of "\<lparr>aborted = False, enqueued = [], fullResponse = [], errored = False\<rparr>"
        "\<lparr>aborted = False, enqueued = [], fullResponse = [], errored = False\<rparr>" evs]
  by (simp add: stream_start_def Let_def)

section \<open>Claims about the history store\<close>

text \<open>
  Claim C1, as the code has it. \<open>writeToHistory\<close> with a well-formed companion key
  leaves every entry with a different text, and its score, as it was, and leaves every
  other key untouched; afterwards the text is an entry whose score is the current time.
  A text that was already an entry is not entered a second time: its score is replaced
  and the number of entries stays the same. Only a new text makes the history one entry
  longer.
\<close>

theorem writeToHistory_score_replaced:
  assumes "userId ck = Some u"
    and "key = generateRedisCompanionKey ck"
    and "db' = fst (writeToHistory db now entry (Some ck))"
  shows "filter (\<lambda>e. fst e \<noteq> entry) (db' key) = filter (\<lambda>e. fst e \<noteq> entry) (db key)
       \<and> map_of (db' key) entry = Some now
       \<and> length (db' key) =
           (if entry \<in> fst ` set (db key) then length (db key) else Suc (length (db key)))
       \<and> (distinct (map fst (db key)) \<longrightarrow> distinct (map fst (db' key)))
       \<and> (\<forall>k. k \<noteq> key \<longrightarrow> db' k = db k)
       \<and> snd (writeToHistory db now entry (Some ck)) =
           Num (if entry \<in> fst ` set (db key) then 0 else 1)"
proof -
  have db': "db' = db(key := zset_add entry now (db key))"
    using assms by (simp add: writeToHistory_def zadd_def Let_def)
  have ret: "snd (writeToHistory db now entry (Some ck)) =
      Num (if entry \<in> fst ` set (db key) then 0 else 1)"
    using assms by (simp add: writeToHistory_def zadd_def Let_def)
  from ret show ?thesis
    by (simp add: db' zset_add_others zset_add_map_of zset_add_length zset_add_distinct)
qed

theorem writeToHistory_score_replaced_witness:
  "userId ex_key = Some ''u1''
   \<and> fst (writeToHistory ex_db 9 ''Hello!'' (Some ex_key)) ''c1-gpt-4-u1''
       = [(''User: hi'', 7), (''Hello!'', 9)]
   \<and> map_of (fst (writeToHistory ex_db 9 ''Hello!'' (Some ex_key)) ''c1-gpt-4-u1'') ''Hello!''
       = Some 9"
proof -
  have u: "userId ex_key = Some ''u1''" by (simp add: ex_key_def)
  have k: "generateRedisCompanionKey ex_key = ''c1-gpt-4-u1''"
    by (simp add: generateRedisCompanionKey_def ex_key_def)
  have "fst (writeToHistory ex_db 9 ''Hello!'' (Some ex_key)) ''c1-gpt-4-u1''
       = [(''User: hi'', 7), (''Hello!'', 9)]"
    by (simp add: writeToHistory_def zadd_def k u ex_db_def empty_redis_def)
  then show ?thesis
    using writeToHistory_score_replaced
      [where db = ex_db and now = 9 and entry = "''Hello!''", OF u k [symmetric] refl]
    by (simp add: u)
qed

text \<open>
  The claim as stated asks for two retained entries after the same text is appended
  twice, with the first entry's score untouched. Appending \<open>User: hi\<close> at time 5 and
  again at time 9 leaves one entry, with score 9.
\<close>

theorem writeToHistory_duplicate_counterexample:
  "fst (writeToHistory empty_redis 5 ''User: hi'' (Some ex_key)) ''c1-gpt-4-u1''
     = [(''User: hi'', 5)]
   \<and> fst (writeToHistory (fst (writeToHistory empty_redis 5 ''User: hi'' (Some ex_key)))
            9 ''User: hi'' (Some ex_key)) ''c1-gpt-4-u1''
     = [(''User: hi'', 9)]"
  by (simp add: writeToHistory_def zadd_def generateRedisCompanionKey_def ex_key_def
      empty_redis_def)




text \<open>
  Claim C3, as the code has it. \<open>seedChatHistory\<close> splits the content on the delimiter
  into ordered lines. When the key already has an entry the call changes nothing;
  otherwise it writes the lines in order with the scores 0, 1, 2, ... under the key and
  touches no other key: every line is an entry, a line has the index of its last
  occurrence as its score, and lines that are all different read back in their original
  order. In both cases the call returns no value. Calling it a second time changes
  nothing, so the entry count is that of calling it once.
\<close>

theorem seedChatHistory_seeds_once:
  assumes "key = generateRedisCompanionKey ck"
    and "lines = split_str delimiter seedContent"
    and "db' = seed_loop db key lines 0"
  shows "seedChatHistory db seedContent delimiter (Some ck) =
           Inr (if exists_key db key then db else db', Undefined)
       \<and> (\<not> exists_key db key \<longrightarrow>
             fst ` set (db' key) = set lines
           \<and> (\<forall>i < length lines. lines ! i \<notin> set (drop (Suc i) lines) \<longrightarrow>
                 map_of (db' key) (lines ! i) = Some (int i))
           \<and> (distinct lines \<longrightarrow>
                 map fst (db' key) = lines \<and> map snd (db' key) = map int [0..<length lines]
                 \<and> zrange_byscore db' key 0 (int (length lines)) = lines)
           \<and> (\<forall>k. k \<noteq> key \<longrightarrow> db' k = db k))
       \<and> (\<forall>db1 r. seedChatHistory db seedContent delimiter (Some ck) = Inr (db1, r) \<longrightarrow>
             seedChatHistory db1 seedContent delimiter (Some ck) = Inr (db1, r)
             \<and> length (db1 key) =
                 (if exists_key db key then length (db key) else length (db' key)))"
proof -
  have call: "seedChatHistory db seedContent delimiter (Some ck) =
      Inr (if exists_key db key then db else db', Undefined)"
    by (simp add: seedChatHistory_def assms Let_def)
  have others: "db' k = db k" if "k \<noteq> key" for k
    using that by (simp add: assms(3) seed_loop_eq)
  have fresh_key: "db' key = seed_entries [] lines 0" if "\<not> exists_key db key"
    using that by (simp add: assms(3) seed_loop_eq exists_key_def)
  have members: "fst ` set (db' key) = set lines" if "\<not> exists_key db key"
    by (simp add: fresh_key [OF that] seed_entries_fst)
  have scores: "map_of (db' key) (lines ! i) = Some (int i)"
    if "\<not> exists_key db key" "i < length lines" "lines ! i \<notin> set (drop (Suc i) lines)" for i
    using seed_entries_score [OF that(2,3), of "[]" 0] by (simp add: fresh_key [OF that(1)])
  have numbered: "db' key = number_from 0 lines" if "\<not> exists_key db key" "distinct lines"
    using seed_entries_fresh [OF that(2), of "[]" 0] by (simp add: fresh_key [OF that(1)])
  have ordered: "map fst (db' key) = lines \<and> map snd (db' key) = map int [0..<length lines]
      \<and> zrange_byscore db' key 0 (int (length lines)) = lines"
    if "\<not> exists_key db key" "distinct lines"
    using numbered [OF that] zrange_number_from [of db' key lines]
    by (simp add: number_from_fst number_from_snd)
  have again: "seedChatHistory db1 seedContent delimiter (Some ck) = Inr (db1, r)
      \<and> length (db1 key) = (if exists_key db key then length (db key) else length (db' key))"
    if first: "seedChatHistory db seedContent delimiter (Some ck) = Inr (db1, r)" for db1 r
  proof (cases "exists_key db key")
    case True
    with first call have "db1 = db" "r = Undefined" by simp_all
    with call True show ?thesis by simp
  next
    case False
    with first call have eq: "db1 = db'" "r = Undefined" by simp_all
    show ?thesis
    proof (cases "lines = []")
      case True
      then have "db' = db" by (simp add: assms(3))
      with eq call False show ?thesis by simp
    next
      case nonempty: False
      with members [OF False] have "exists_key db' key" by (auto simp: exists_key_def)
      then show ?thesis
        using False by (simp add: seedChatHistory_def eq assms(1) Let_def)
    qed
  qed
  from call members scores ordered others again show ?thesis by blast
qed

theorem seedChatHistory_seeds_once_witness:
  "\<not> exists_key empty_redis ''c1-gpt-4-u1''
   \<and> split_str ''|'' ex_seed = [''Human: Hi'', ''Bot: Hello'']
   \<and> seed_loop empty_redis ''c1-gpt-4-u1'' [''Human: Hi'', ''Bot: Hello''] 0 ''c1-gpt-4-u1''
       = [(''Human: Hi'', 0), (''Bot: Hello'', 1)]
   \<and> zrange_byscore (seed_loop empty_redis ''c1-gpt-4-u1'' [''Human: Hi'', ''Bot: Hello''] 0)
        ''c1-gpt-4-u1'' 0 2 = [''Human: Hi'', ''Bot: Hello'']
   \<and> (\<exists>db1. seedChatHistory empty_redis ex_seed ''|'' (Some ex_key) = Inr (db1, Undefined)
        \<and> seedChatHistory db1 ex_seed ''|'' (Some ex_key) = Inr (db1, Undefined))"
proof -
  have k: "''c1-gpt-4-u1'' = generateRedisCompanionKey ex_key"
    by (simp add: generateRedisCompanionKey_def ex_key_def)
  have l: "[''Human: Hi'', ''Bot: Hello''] = split_str ''|'' ex_seed"
    by (simp add: split_str_def ex_seed_def)
  have e: "\<not> exists_key empty_redis ''c1-gpt-4-u1''"
    by (simp add: exists_key_def empty_redis_def)
  have d: "distinct [''Human: Hi'', ''Bot: Hello'']" by simp
  have s: "seed_loop empty_redis ''c1-gpt-4-u1'' [''Human: Hi'', ''Bot: Hello''] 0 ''c1-gpt-4-u1''
       = [(''Human: Hi'', 0), (''Bot: Hello'', 1)]"
    by (simp add: zadd_def empty_redis_def)
  show ?thesis
    using seedChatHistory_seeds_once [OF k l refl, of empty_redis] e d s
    by (simp flip: l)
qed

text \<open>
  The claim as stated has the call return false on a key with entries and true after
  seeding. The source has no return value: seeding an empty store and seeding a key that
  has entries both hand back \<open>undefined\<close>.
\<close>

theorem seedChatHistory_return_counterexample:
  "seedChatHistory empty_redis ''Human: Hi|Bot: Hello'' ''|'' (Some ex_key) =
     Inr (empty_redis(''c1-gpt-4-u1'' := [(''Human: Hi'', 0), (''Bot: Hello'', 1)]), Undefined)
   \<and> seedChatHistory ex_db ''Human: Hi|Bot: Hello'' ''|'' (Some ex_key) = Inr (ex_db, Undefined)"
  by (simp add: seedChatHistory_def generateRedisCompanionKey_def ex_key_def exists_key_def
      empty_redis_def ex_db_def split_str_def zadd_def)

text \<open>
  Claim C10. For a companion key whose \<open>userId\<close> is absent, \<open>writeToHistory\<close> writes
  nothing and returns the empty string, and \<open>readLatestHistory\<close> returns the empty
  string; \<open>seedChatHistory\<close> has no such guard: it derives the key that ends in
  \<open>-undefined\<close> and, when that key has no entry yet, writes the seed lines under it.
\<close>

theorem seedChatHistory_no_userId_guard:
  assumes "userId ck = None"
    and "key = generateRedisCompanionKey ck"
    and "lines = split_str delimiter seedContent"
  shows "writeToHistory db now entry (Some ck) = (db, Str [])
       \<and> readLatestHistory client db now (Some ck) = []
       \<and> key = companionName ck @ ''-'' @ modelName ck @ ''-undefined''
       \<and> seedChatHistory db seedContent delimiter (Some ck) =
           Inr (if exists_key db key then db else seed_loop db key lines 0, Undefined)
       \<and> (\<not> exists_key db key \<longrightarrow>
             fst ` set (seed_loop db key lines 0 key) = set lines
           \<and> (delimiter \<noteq> [] \<longrightarrow> exists_key (seed_loop db key lines 0) key))"
proof -
  have members: "fst ` set (seed_loop db key lines 0 key) = set lines"
    if "\<not> exists_key db key"
    using that by (simp add: seed_loop_eq seed_entries_fst exists_key_def)
  have "lines \<noteq> []" if "delimiter \<noteq> []"
    using that by (simp add: assms(3) split_str_def split_sep_not_Nil)
  with members have written: "exists_key (seed_loop db key lines 0) key"
    if "\<not> exists_key db key" "delimiter \<noteq> []"
    using that by (auto simp: exists_key_def)
  from members written show ?thesis
    using assms
    by (simp add: writeToHistory_def readLatestHistory_def seedChatHistory_def
        generateRedisCompanionKey_def Let_def)
qed

theorem seedChatHistory_no_userId_guard_witness:
  "userId ex_key_no_user = None
   \<and> writeToHistory empty_redis 5 ''User: hi'' (Some ex_key_no_user) = (empty_redis, Str [])
   \<and> readLatestHistory ex_client ex_db 5 (Some ex_key_no_user) = []
   \<and> seedChatHistory empty_redis ex_seed ''|'' (Some ex_key_no_user) =
       Inr (empty_redis(''c1-gpt-4-undefined'' := [(''Human: Hi'', 0), (''Bot: Hello'', 1)]),
            Undefined)"
proof -
  have u: "userId ex_key_no_user = None" by (simp add: ex_key_no_user_def)
  have k: "''c1-gpt-4-undefined'' = generateRedisCompanionKey ex_key_no_user"
    by (simp add: generateRedisCompanionKey_def ex_key_no_user_def)
  have l: "[''Human: Hi'', ''Bot: Hello''] = split_str ''|'' ex_seed"
    by (simp add: split_str_def ex_seed_def)
  have e: "\<not> exists_key empty_redis ''c1-gpt-4-undefined''"
    by (simp add: exists_key_def empty_redis_def)
  have s: "seed_loop empty_redis ''c1-gpt-4-undefined'' [''Human: Hi'', ''Bot: Hello''] 0
       = empty_redis(''c1-gpt-4-undefined'' := [(''Human: Hi'', 0), (''Bot: Hello'', 1)])"
    by (simp add: zadd_def empty_redis_def)
  note t = seedChatHistory_no_userId_guard [OF u k l, of empty_redis 5 "''User: hi''"]
  note t' = seedChatHistory_no_userId_guard [OF u k l, of ex_db 5 "''User: hi''"]
  have w: "writeToHistory empty_redis 5 ''User: hi'' (Some ex_key_no_user) = (empty_redis, Str [])"
    by (rule t [THEN conjunct1])
  have r: "readLatestHistory ex_client ex_db 5 (Some ex_key_no_user) = []"
    by (rule t' [THEN conjunct2, THEN conjunct1])
  have "seedChatHistory empty_redis ex_seed ''|'' (Some ex_key_no_user) =
       Inr (empty_redis(''c1-gpt-4-undefined'' := [(''Human: Hi'', 0), (''Bot: Hello'', 1)]),
            Undefined)"
    using t [THEN conjunct2, THEN conjunct2, THEN conjunct2, THEN conjunct1]
    by (simp only: e s if_False)
  with u w r show ?thesis by (intro conjI)
qed

section \<open>Claims about vectorSearch\<close>

text \<open>
  Claim C8. With the word count taken as the number of pieces of \<open>text.split(/\s+/)\<close>,
  \<open>truncateText\<close> returns the text unchanged when the word count times 1.3 is at most
  8000 (13 times the count at most 80000), and otherwise returns exactly the first
  \<open>floor(8000 / 1.3) = 6153\<close> words joined with spaces, which split again into those
  same 6153 words. So the text that is embedded never exceeds the budget.
\<close>

theorem truncateText_within_budget:
  "(13 * length (split_ws text) \<le> 80000 \<longrightarrow> truncateText text = text)
   \<and> (80000 < 13 * length (split_ws text) \<longrightarrow>
         truncateText text = join '' '' (take 6153 (split_ws text))
         \<and> split_ws (truncateText text) = take 6153 (split_ws text)
         \<and> length (split_ws (truncateText text)) = 6153)
   \<and> targetWords = 6153
   \<and> 13 * length (split_ws (truncateText text)) \<le> 80000"
proof -
  have tw: "targetWords = 6153" by (simp add: targetWords_def)
  have under: "truncateText text = text" if "13 * length (split_ws text) \<le> 80000"
    using that by (simp add: truncateText_def)
  have over: "truncateText text = join '' '' (take 6153 (split_ws text))
      \<and> split_ws (truncateText text) = take 6153 (split_ws text)
      \<and> length (split_ws (truncateText text)) = 6153"
    if "80000 < 13 * length (split_ws text)"
  proof -
    have len: "6153 < length (split_ws text)" using that by arith
    have cut: "truncateText text = join '' '' (take 6153 (split_ws text))"
      using that by (simp add: truncateText_def tw)
    have "split_ws (join '' '' (take 6153 (split_ws text))) = take 6153 (split_ws text)"
      using len by (intro split_ws_take_join) simp_all
    with cut len show ?thesis by simp
  qed
  have "13 * length (split_ws (truncateText text)) \<le> 80000"
  proof (cases "13 * length (split_ws text) \<le> 80000")
    case True
    with under show ?thesis by simp
  next
    case False
    then have "80000 < 13 * length (split_ws text)" by simp
    from over [OF this] have "length (split_ws (truncateText text)) = 6153" by blast
    then show ?thesis by simp
  qed
  with tw under over show ?thesis by blast
qed

theorem truncateText_within_budget_witness:
  "13 * length (split_ws ''hello world'') \<le> 80000
   \<and> truncateText ''hello world'' = ''hello world''
   \<and> 80000 < 13 * length (split_ws (many_words 6154))
   \<and> length (split_ws (truncateText (many_words 6154))) = 6153"
proof -
  have a: "13 * length (split_ws ''hello world'') \<le> 80000"
    by (simp add: is_space_def)
  have b: "80000 < 13 * length (split_ws (many_words 6154))"
    by (simp add: split_ws_many_words)
  from a b truncateText_within_budget [of "''hello world''"]
    truncateText_within_budget [of "many_words 6154"]
  show ?thesis by blast
qed

text \<open>
  Claim C6. Once the index handle and the vector store have been obtained, every
  failure of the similarity search, the call that embeds the text and queries the index,
  is caught and turned into the empty list: \<open>vectorSearch\<close> then always returns a list
  of documents and never an error.
\<close>

theorem vectorSearch_catches_search_errors:
  assumes "Index svc = Inr idx"
    and "fromExistingIndex svc idx namespace = Inr store"
  shows "vectorSearch svc recentChatHistory namespace =
           Inr (case similaritySearch svc store (truncateText recentChatHistory) 5 of
                  Inl err \<Rightarrow> [] | Inr similarDocs \<Rightarrow> similarDocs)
       \<and> (\<forall>err. similaritySearch svc store (truncateText recentChatHistory) 5 = Inl err \<longrightarrow>
             vectorSearch svc recentChatHistory namespace = Inr [])
       \<and> (\<forall>err. vectorSearch svc recentChatHistory namespace \<noteq> Inl err)"
  using assms by (auto simp: vectorSearch_def split: sum.splits)

theorem vectorSearch_catches_search_errors_witness:
  "Index ex_services = Inr ()
   \<and> fromExistingIndex ex_services () ''c1.txt'' = Inr ()
   \<and> similaritySearch ex_services () (truncateText ''fail'') 5 = Inl ServiceError
   \<and> vectorSearch ex_services ''fail'' ''c1.txt'' = Inr []
   \<and> vectorSearch ex_services ''User: hi'' ''c1.txt'' = Inr [''doc'']"
proof -
  have i: "Index ex_services = Inr ()" by (simp add: ex_services_def)
  have f: "fromExistingIndex ex_services () ''c1.txt'' = Inr ()" by (simp add: ex_services_def)
  have t: "truncateText ''fail'' = ''fail''" "truncateText ''User: hi'' = ''User: hi''"
    by (simp_all add: truncateText_def is_space_def)
  have s: "similaritySearch ex_services () ''fail'' 5 = Inl ServiceError"
    "similaritySearch ex_services () ''User: hi'' 5 = Inr [''doc'']"
    by (simp_all add: ex_services_def)
  show ?thesis
    using vectorSearch_catches_search_errors [OF i f, of "''fail''"]
      vectorSearch_catches_search_errors [OF i f, of "''User: hi''"]
    by (simp add: i f t s)
qed

section \<open>Claims about the repetition check and the prompt template\<close>

text \<open>
  Claim C5, as the code has it. The words of a text are its lower-cased pieces between
  single space characters, empty pieces dropped; no other white space separates words.
  For a recent message the check compares the multiset overlap of its words and the
  prompt's words, the sum of \<open>min(countInA, countInB)\<close> over the shared words, with
  the larger of the two word counts, and holds when the ratio exceeds 0.6 (three fifths).
  The prompt is flagged repetitive exactly when the check holds for some recent message;
  the exemplar is the content of the first such message in input order, and the empty
  string when there is none. A side with no words is never flagged.
\<close>

theorem repetition_check_overlap:
  "(is_similar prompt msg_content \<longleftrightarrow>
      3 * max (length (words_of msg_content)) (length (words_of prompt))
        < 5 * size (mset (words_of msg_content) \<inter># mset (words_of prompt)))
   \<and> (detect_isRepetitive prompt recentMessages \<longleftrightarrow>
        (\<exists>msg \<in> set recentMessages. is_similar prompt (content msg)))
   \<and> (detect_isRepetitive prompt recentMessages \<longrightarrow>
        (\<exists>before msg after. recentMessages = before @ msg # after
           \<and> (\<forall>m \<in> set before. \<not> is_similar prompt (content m))
           \<and> is_similar prompt (content msg)
           \<and> detect_lastResponse prompt recentMessages = content msg))
   \<and> (\<not> detect_isRepetitive prompt recentMessages \<longrightarrow>
        detect_lastResponse prompt recentMessages = [])
   \<and> (words_of prompt = [] \<or> words_of msg_content = [] \<longrightarrow> \<not> is_similar prompt msg_content)"
proof -
  let ?P = "\<lambda>msg. is_similar prompt (content msg)"
  have flag: "detect_isRepetitive prompt recentMessages \<longleftrightarrow> (\<exists>msg \<in> set recentMessages. ?P msg)"
    by (auto simp: detect_isRepetitive_def similarMessages_def filter_empty_conv)
  have first: "\<exists>before msg after. recentMessages = before @ msg # after
      \<and> (\<forall>m \<in> set before. \<not> ?P m) \<and> ?P msg
      \<and> detect_lastResponse prompt recentMessages = content msg"
    if "detect_isRepetitive prompt recentMessages"
  proof -
    from that obtain msg rest where f: "filter ?P recentMessages = msg # rest"
      by (cases "filter ?P recentMessages")
         (auto simp: detect_isRepetitive_def similarMessages_def)
    then obtain before after where "recentMessages = before @ msg # after"
      "\<forall>m \<in> set before. \<not> ?P m" "?P msg"
      unfolding filter_eq_Cons_iff by blast
    moreover have "detect_lastResponse prompt recentMessages = content msg"
      by (simp add: detect_lastResponse_def similarMessages_def f)
    ultimately show ?thesis by blast
  qed
  have none: "detect_lastResponse prompt recentMessages = []"
    if "\<not> detect_isRepetitive prompt recentMessages"
    using that by (simp add: detect_isRepetitive_def detect_lastResponse_def)
  have empty: "\<not> is_similar prompt msg_content"
    if "words_of prompt = [] \<or> words_of msg_content = []"
    using that by (auto simp: is_similar_overlap)
  from is_similar_overlap flag first none empty show ?thesis by blast
qed

theorem repetition_check_overlap_witness:
  "detect_isRepetitive ''Tell me a joke'' ex_recent
   \<and> detect_lastResponse ''Tell me a joke'' ex_recent = ''tell me a JOKE please''
   \<and> words_of '''' = []
   \<and> \<not> is_similar '''' ''tell me a JOKE please''"
proof -
  have r: "detect_isRepetitive ''Tell me a joke'' ex_recent" by code_simp
  have l: "detect_lastResponse ''Tell me a joke'' ex_recent = ''tell me a JOKE please''"
    by code_simp
  have w: "words_of '''' = []" by (rule words_of_empty)
  from repetition_check_overlap [of "''''" "''tell me a JOKE please''"] w
  have "\<not> is_similar '''' ''tell me a JOKE please''" by blast
  with r l w repetition_check_overlap [of "''Tell me a joke''" _ ex_recent]
  show ?thesis by blast
qed

text \<open>
  The claim as stated splits on white space. For the prompt \<open>hello\<close>, line feed,
  \<open>world\<close> and the recent text \<open>hello world\<close> the check in the words of the claim
  has ratio 1 and flags the prompt; the code splits on the space character only, sees the
  one word made of both lines in the prompt, and does not flag it.
\<close>

theorem repetition_whitespace_counterexample:
  "spec_isRepetitive ex_two_lines [''hello world'']
   \<and> \<not> detect_isRepetitive ex_two_lines [ex_msg ''hello world'']"
proof -
  have a: "spec_words ex_two_lines = [''hello'', ''world'']"
    "spec_words ''hello world'' = [''hello'', ''world'']" by code_simp+
  have b: "\<not> detect_isRepetitive ex_two_lines [ex_msg ''hello world'']"
    by code_simp
  show ?thesis by (simp add: spec_isRepetitive_def spec_ratio_exceeds_def a b)
qed

text \<open>
  Claim C9. The prompt text does not depend on the repetition flag or on the exemplar:
  two calls of \<open>createPromptTemplate\<close> that differ only in these two arguments give the
  same text, and the rule against repetition is part of the text in every case.
\<close>

theorem prompt_ignores_repetition:
  "createPromptTemplate name instructions messageHistory isRepetitive lastResponse prompt
     = createPromptTemplate name instructions messageHistory isRepetitive' lastResponse' prompt
   \<and> (\<exists>pre post.
         createPromptTemplate name instructions messageHistory isRepetitive lastResponse prompt
           = pre @ no_repetition_rule @ post)"
proof -
  have "\<exists>pre post.
      createPromptTemplate name instructions messageHistory isRepetitive lastResponse prompt
        = pre @ no_repetition_rule @ post"
    unfolding createPromptTemplate_def Let_def
    by (rule join_member) (simp add: no_repetition_rule_def)
  then show ?thesis by (simp add: createPromptTemplate_def)
qed

section \<open>Claims about the POST handler\<close>



text \<open>
  Claim C2, evaluated on the code. The stream yields \<open>Hello\<close>, then the 30 second
  timer fires, then the stream yields \<open> there\<close> and ends. The claim has the timer cancel
  the generation and the persistence writes skipped; in the code the part after the timer
  still reaches the caller and both writes are made with the full text.
\<close>

theorem timeout_does_not_cancel:
  "stream_start ex_world 31000 ''c1'' ''u1'' ex_key [Part ''Hello'', TimerFires, Part '' there'']
     = (\<lparr>message_table =
            [\<lparr>content = ''Hello there'', role = ''system'', msg_userId = ''u1'',
              companionId = ''c1''\<rparr>],
          history = empty_redis(''c1-gpt-4-u1'' := [(''Hello there'', 31000)])\<rparr>,
        \<lparr>aborted = True, enqueued = [''Hello'', '' there''], fullResponse = ''Hello there'',
          errored = False\<rparr>)"
  by (simp add: stream_start_def ex_world_def ex_key_def writeToHistory_def zadd_def
      generateRedisCompanionKey_def empty_redis_def trim_def is_space_def)

end
